theory Spec2Isabelle
  imports Main "HOL-Library.Sublist" "HOL-Library.Word"
begin

section \<open>The C library functions the program calls\<close>

text \<open>
  A C string is modelled by the list of its bytes before the terminating NUL, so the end
  of the list stands for the test \<^verbatim>\<open>*p == '\0'\<close>. The program never calls
  \<^verbatim>\<open>setlocale\<close>, so the character classes are those of the "C" locale.
  Allocation (\<^verbatim>\<open>malloc\<close>, \<^verbatim>\<open>realloc\<close>, \<^verbatim>\<open>strdup\<close>) is taken to succeed.
\<close>

definition isspace :: "char \<Rightarrow> bool" where
  "isspace c = (c \<in> set [CHR '' '', CHR 0x09, CHR 0x0A, CHR 0x0B, CHR 0x0C, CHR 0x0D])"

definition isdigit :: "char \<Rightarrow> bool" where
  "isdigit c = (c \<in> set ''0123456789'')"

definition tolower :: "char \<Rightarrow> char" where
  "tolower c =
     (let n = (of_char c :: nat) in if 65 \<le> n \<and> n \<le> 90 then char_of (n + 32) else c)"

text \<open>\<^verbatim>\<open>strstr(h, n)\<close>: the suffix of \<open>h\<close> at the first occurrence of \<open>n\<close>, or NULL.\<close>

fun strstr :: "string \<Rightarrow> string \<Rightarrow> string option" where
  "strstr [] n = (if n = [] then Some [] else None)"
| "strstr (c # cs) n = (if prefix n (c # cs) then Some (c # cs) else strstr cs n)"

text \<open>\<^verbatim>\<open>strrchr(s, c)\<close>: the suffix of \<open>s\<close> at the last occurrence of \<open>c\<close>, or NULL.\<close>

fun strrchr :: "string \<Rightarrow> char \<Rightarrow> string option" where
  "strrchr [] c = None"
| "strrchr (x # xs) c =
     (case strrchr xs c of
        Some p \<Rightarrow> Some p
      | None \<Rightarrow> if x = c then Some (x # xs) else None)"

text \<open>\<^verbatim>\<open>strchr(s, c) != NULL\<close> for a character \<open>c\<close> other than NUL.\<close>

definition strchr_found :: "string \<Rightarrow> char \<Rightarrow> bool" where
  "strchr_found s c = (c \<in> set s)"

section \<open>Case-insensitive substring search\<close>

text \<open>
  \<^verbatim>\<open>strcasestr_bool\<close>: 0 for an empty needle or a needle longer than the haystack;
  otherwise the positions \<open>i\<close> with \<open>i + nn \<le> nh\<close> are tried in turn, comparing the
  lower-cased bytes.
\<close>

definition strcasestr_bool :: "string \<Rightarrow> string \<Rightarrow> bool" where
  "strcasestr_bool haystack needle =
     (if needle = [] then False
      else if length needle > length haystack then False
      else list_ex
             (\<lambda>i. map tolower (take (length needle) (drop i haystack)) = map tolower needle)
             [0 ..< length haystack - length needle + 1])"

section \<open>URL normalization\<close>

text \<open>
  \<^verbatim>\<open>normalize_url\<close> returns NULL for a NULL or empty token (\<open>None\<close> here).
  \<^verbatim>\<open>strncmp(u, lit, strlen(lit)) == 0\<close> says that \<open>lit\<close> is a prefix of \<open>u\<close>.
\<close>

definition normalize_url :: "string \<Rightarrow> string option" where
  "normalize_url u =
     (if u = [] then None
      else if prefix ''http://'' u \<or> prefix ''https://'' u then Some u
      else if prefix ''www.'' u then Some (''https://'' @ u)
      else if strchr_found u CHR ''.'' \<or> strchr_found u CHR '':'' then Some (''https://'' @ u)
      else Some u)"

section \<open>URL extraction\<close>

text \<open>
  \<^verbatim>\<open>extract_urls_from_html\<close> runs the same loop three times, once for each of the
  literals \<^verbatim>\<open>"http://"\<close>, \<^verbatim>\<open>"https://"\<close> and \<^verbatim>\<open>"blob:"\<close>, each time from the
  start of the text. The inner loop advances \<open>q\<close> over the bytes that are neither NUL,
  nor white space, nor one of \<^verbatim>\<open>" ' < >\<close>; the token is the text between the match and
  \<open>q\<close>, and the search resumes at \<open>q\<close>.
\<close>

datatype scheme = Http | Https | Blob

fun scheme_literal :: "scheme \<Rightarrow> string" where
  "scheme_literal Http = ''http://''"
| "scheme_literal Https = ''https://''"
| "scheme_literal Blob = ''blob:''"

definition url_char :: "char \<Rightarrow> bool" where
  "url_char c =
     (\<not> isspace c \<and> c \<noteq> CHR 0x22 \<and> c \<noteq> CHR 0x27 \<and> c \<noteq> CHR ''<'' \<and> c \<noteq> CHR ''>'')"

function scan_scheme :: "scheme \<Rightarrow> string \<Rightarrow> string list" where
  "scan_scheme sc p =
     (case strstr p (scheme_literal sc) of
        None \<Rightarrow> []
      | Some start \<Rightarrow> takeWhile url_char start # scan_scheme sc (dropWhile url_char start))"
  by pat_completeness auto
termination
proof (relation "measure (\<lambda>(sc, p). length p)")
  show "wf (measure (\<lambda>(sc, p). length p))" by simp
next
  fix sc :: scheme and p start :: string
  assume found: "strstr p (scheme_literal sc) = Some start"
  have suf: "strstr h n = Some r \<Longrightarrow> length r \<le> length h \<and> prefix n r" for h n r
    by (induction h) (auto split: if_splits)
  from suf [OF found] have len: "length start \<le> length p"
    and pre: "prefix (scheme_literal sc) start" by simp_all
  from pre obtain c cs where start: "start = c # cs" and c: "url_char c"
    by (cases sc; cases start) (auto simp: url_char_def isspace_def)
  have "length (dropWhile url_char start) \<le> length cs"
    using c by (simp add: start length_dropWhile_le)
  with len start show "((sc, dropWhile url_char start), (sc, p)) \<in> measure (\<lambda>(sc, p). length p)"
    by simp
qed

definition extract_urls_from_html :: "string \<Rightarrow> string list" where
  "extract_urls_from_html html =
     scan_scheme Http html @ scan_scheme Https html @ scan_scheme Blob html"

text \<open>
  The number of occurrences of a literal in a text: the positions at which the literal
  is a prefix of what remains.
\<close>

fun occurrences :: "string \<Rightarrow> string \<Rightarrow> nat" where
  "occurrences lit [] = 0"
| "occurrences lit (c # cs) = (if prefix lit (c # cs) then 1 else 0) + occurrences lit cs"

section \<open>Categorization\<close>

definition get_ext :: "string \<Rightarrow> string" where
  "get_ext url =
     (case strrchr url CHR ''.'' of
        None \<Rightarrow> []
      | Some p \<Rightarrow> if strchr_found p CHR ''/'' then [] else p)"

text \<open>
  \<^verbatim>\<open>lower_ext\<close> has room for 15 bytes: a longer extension is replaced by the empty
  string. The API test comes before every extension test, and the extension tests
  are tried in the order of the source.
\<close>

definition lower_ext_of :: "string \<Rightarrow> string" where
  "lower_ext_of ext = (if length ext < 16 then map tolower ext else [])"

definition categorize_url :: "string \<Rightarrow> string" where
  "categorize_url url =
     (let lower_ext = lower_ext_of (get_ext url) in
      if strstr url ''/api/'' \<noteq> None \<or> strcasestr_bool url ''graphql'' then ''API / ENDPOINTS''
      else if lower_ext = ''.js'' \<or> lower_ext = ''.mjs'' then ''SCRIPTS''
      else if lower_ext = ''.png'' \<or> lower_ext = ''.jpg'' \<or> lower_ext = ''.jpeg'' \<or>
              lower_ext = ''.gif'' \<or> lower_ext = ''.svg'' \<or> lower_ext = ''.webp'' \<or>
              lower_ext = ''.ico'' \<or> lower_ext = ''.mp4'' \<or> lower_ext = ''.mov'' \<or>
              lower_ext = ''.wav'' then ''MEDIA''
      else if lower_ext = ''.json'' \<or> lower_ext = ''.xml'' \<or> lower_ext = ''.yml'' \<or>
              lower_ext = ''.yaml'' \<or> lower_ext = ''.pdf'' \<or> lower_ext = ''.txt'' \<or>
              lower_ext = ''.doc'' \<or> lower_ext = ''.docx'' \<or> lower_ext = ''.csv''
           then ''DOCUMENTS / CONFIG''
      else if lower_ext = ''.html'' \<or> lower_ext = ''.htm'' \<or>
              strstr url ''.bundle.js'' \<noteq> None \<or> strstr url ''.chunk.js'' \<noteq> None
           then ''HTML / FRAMEWORK''
      else ''OTHER'')"

text \<open>The six labels, in the display order of \<^verbatim>\<open>run_html_mode\<close>.\<close>

definition names :: "string list" where
  "names = [''SCRIPTS'', ''MEDIA'', ''API / ENDPOINTS'', ''DOCUMENTS / CONFIG'',
            ''HTML / FRAMEWORK'', ''OTHER'']"

section \<open>Duration parsing\<close>

text \<open>
  \<^verbatim>\<open>long\<close> is taken as the 64-bit two's complement integer of an LP64 platform, and its
  arithmetic as wrapping (the C standard leaves signed overflow undefined). \<^verbatim>\<open>atol\<close>
  is only called on a non-empty string of decimal digits; it is modelled as
  \<^verbatim>\<open>strtol\<close>, which returns \<^verbatim>\<open>LONG_MAX\<close> when the value does not fit.
\<close>

type_synonym long = "64 word"

definition digit_val :: "char \<Rightarrow> nat" where
  "digit_val c = of_char c - 48"

definition atol :: "string \<Rightarrow> long" where
  "atol s =
     (let v = foldl (\<lambda>a c. a * 10 + digit_val c) (0::nat) (takeWhile isdigit s)
      in if v > 2 ^ 63 - 1 then 2 ^ 63 - 1 else of_nat v)"

definition digits_value :: "string \<Rightarrow> long" where
  "digits_value ds = foldl (\<lambda>val c. val * 10 + of_nat (digit_val c)) 0 ds"

lemma dropWhile_eq_Cons_shorter:
  "dropWhile P xs = y # ys \<Longrightarrow> length ys < length xs"
proof -
  assume "dropWhile P xs = y # ys"
  then have "length (y # ys) \<le> length xs"
    by (metis length_dropWhile_le)
  then show ?thesis by simp
qed

function parse_units :: "string \<Rightarrow> long \<Rightarrow> long" where
  "parse_units buf tot =
     (case buf of
        [] \<Rightarrow> if 0 <s tot then tot else - 1
      | c # _ \<Rightarrow>
          if \<not> isdigit c then - 1
          else
            let val = digits_value (takeWhile isdigit buf) in
            (case dropWhile isdigit buf of
               [] \<Rightarrow> parse_units [] (tot + val)
             | unit_c # rest \<Rightarrow>
                 if unit_c = CHR ''h'' then parse_units rest (tot + val * 3600)
                 else if unit_c = CHR ''m'' then parse_units rest (tot + val * 60)
                 else if unit_c = CHR ''s'' then parse_units rest (tot + val)
                 else - 1))"
  by pat_completeness auto
termination
  by (relation "measure (\<lambda>(buf, tot). length buf)")
     (auto dest: dropWhile_eq_Cons_shorter)

text \<open>
  The copy into \<^verbatim>\<open>buf[128]\<close> drops white space, lower-cases, and stops after 127
  bytes. The result - 1 is the rejection.
\<close>

definition parse_duration_seconds :: "string \<Rightarrow> long" where
  "parse_duration_seconds s =
     (if s = [] then - 1
      else
        let buf = take 127 (map tolower (filter (\<lambda>c. \<not> isspace c) s)) in
        if buf = [] then - 1
        else if list_all isdigit buf then atol buf
        else parse_units buf 0)"

section \<open>The filter stage of the HTML mode\<close>

text \<open>
  The local variables that \<^verbatim>\<open>run_html_mode\<close> sets from its argument list. \<^verbatim>\<open>-o\<close> and
  \<^verbatim>\<open>--search\<close> take the next argument as their value when there is one, and are
  skipped otherwise.
\<close>

record scrape_flags =
  use_scripts :: bool
  use_media :: bool
  use_api :: bool
  use_docs :: bool
  use_html :: bool
  use_other :: bool
  no_media_mode :: bool
  output_file :: "string option"
  full_mode :: bool
  search_terms :: "string list"

definition initial_flags :: scrape_flags where
  "initial_flags =
     \<lparr>use_scripts = False, use_media = False, use_api = False, use_docs = False,
      use_html = False, use_other = False, no_media_mode = False, output_file = None,
      full_mode = False, search_terms = []\<rparr>"

text \<open>
  The tokens that repeated calls of \<^verbatim>\<open>strtok(val, ",")\<close> return: the maximal runs of
  bytes other than a comma.
\<close>

function strtok_commas :: "string \<Rightarrow> string list" where
  "strtok_commas s =
     (case dropWhile (\<lambda>c. c = CHR '','') s of
        [] \<Rightarrow> []
      | c # cs \<Rightarrow>
          takeWhile (\<lambda>c. c \<noteq> CHR '','') (c # cs)
            # strtok_commas (drop 1 (dropWhile (\<lambda>c. c \<noteq> CHR '','') cs)))"
  by pat_completeness auto
termination
proof (relation "measure length")
  show "wf (measure length)" by simp
next
  fix s :: string and c :: char and cs :: string
  assume "dropWhile (\<lambda>c. c = CHR '','') s = c # cs"
  then have "length cs < length s"
    by (rule dropWhile_eq_Cons_shorter)
  moreover have "length (drop 1 (dropWhile (\<lambda>c. c \<noteq> CHR '','') cs)) \<le> length cs"
    using length_dropWhile_le [of "\<lambda>c. c \<noteq> CHR '',''" cs] by simp
  ultimately show "(drop 1 (dropWhile (\<lambda>c. c \<noteq> CHR '','') cs), s) \<in> measure length"
    by simp
qed

text \<open>Each token loses its leading white space and is added when something is left.\<close>

definition search_terms_of :: "string \<Rightarrow> string list" where
  "search_terms_of val = filter (\<lambda>t. t \<noteq> []) (map (dropWhile isspace) (strtok_commas val))"

fun parse_args :: "string list \<Rightarrow> scrape_flags \<Rightarrow> scrape_flags" where
  "parse_args [] f = f"
| "parse_args (a # rest) f =
     (if a = ''-s'' then parse_args rest (f\<lparr>use_scripts := True\<rparr>)
      else if a = ''-md'' then parse_args rest (f\<lparr>use_media := True\<rparr>)
      else if a = ''-a'' then parse_args rest (f\<lparr>use_api := True\<rparr>)
      else if a = ''-d'' then parse_args rest (f\<lparr>use_docs := True\<rparr>)
      else if a = ''-ht'' then parse_args rest (f\<lparr>use_html := True\<rparr>)
      else if a = ''-O'' then parse_args rest (f\<lparr>use_other := True\<rparr>)
      else if a = ''--no-media'' then parse_args rest (f\<lparr>no_media_mode := True\<rparr>)
      else if a = ''-o'' \<and> rest \<noteq> [] then
        (case rest of
           [] \<Rightarrow> f
         | v # rest' \<Rightarrow> parse_args rest' (f\<lparr>output_file := Some v\<rparr>))
      else if a = ''--search'' \<and> rest \<noteq> [] then
        (case rest of
           [] \<Rightarrow> f
         | v # rest' \<Rightarrow>
             parse_args rest' (f\<lparr>search_terms := search_terms f @ search_terms_of v\<rparr>))
      else if a = ''--full'' then parse_args rest (f\<lparr>full_mode := True\<rparr>)
      else parse_args rest f)"

definition have_cat_flags :: "scrape_flags \<Rightarrow> bool" where
  "have_cat_flags f =
     (use_scripts f \<or> use_media f \<or> use_api f \<or> use_docs f \<or> use_html f \<or> use_other f)"

text \<open>The search-term test at the head of the loop body.\<close>

definition search_keep :: "scrape_flags \<Rightarrow> string \<Rightarrow> bool" where
  "search_keep f u =
     (if search_terms f \<noteq> [] then list_ex (\<lambda>t. strcasestr_bool u t) (search_terms f)
      else True)"

text \<open>
  The two blocks that follow it compute \<^verbatim>\<open>wanted\<close> and \<^verbatim>\<open>excluded\<close> by the same six
  tests; the first block runs when a category flag is set, the second when
  \<^verbatim>\<open>--no-media\<close> is set, and each of them can leave the loop body.
\<close>

definition wanted :: "scrape_flags \<Rightarrow> string \<Rightarrow> bool" where
  "wanted f cat =
     ((cat = ''SCRIPTS'' \<and> use_scripts f) \<or> (cat = ''MEDIA'' \<and> use_media f) \<or>
      (cat = ''API / ENDPOINTS'' \<and> use_api f) \<or> (cat = ''DOCUMENTS / CONFIG'' \<and> use_docs f) \<or>
      (cat = ''HTML / FRAMEWORK'' \<and> use_html f) \<or> (cat = ''OTHER'' \<and> use_other f))"

definition excluded :: "scrape_flags \<Rightarrow> string \<Rightarrow> bool" where
  "excluded f cat =
     ((cat = ''SCRIPTS'' \<and> use_scripts f) \<or> (cat = ''MEDIA'' \<and> use_media f) \<or>
      (cat = ''API / ENDPOINTS'' \<and> use_api f) \<or> (cat = ''DOCUMENTS / CONFIG'' \<and> use_docs f) \<or>
      (cat = ''HTML / FRAMEWORK'' \<and> use_html f) \<or> (cat = ''OTHER'' \<and> use_other f))"

definition category_keep :: "scrape_flags \<Rightarrow> string \<Rightarrow> bool" where
  "category_keep f cat =
     (if have_cat_flags f \<and> \<not> wanted f cat then False
      else if no_media_mode f \<and> excluded f cat then False
      else True)"

text \<open>
  The URLs that reach the \<^verbatim>\<open>sl_add\<close> chain at the end of the loop body, in the order
  of the extracted list, and the list the chain adds them to.
\<close>

definition kept_urls :: "scrape_flags \<Rightarrow> string list \<Rightarrow> string list" where
  "kept_urls f all_urls =
     filter (\<lambda>u. search_keep f u \<and> category_keep f (categorize_url u)) all_urls"

definition category_list :: "scrape_flags \<Rightarrow> string list \<Rightarrow> string \<Rightarrow> string list" where
  "category_list f all_urls name =
     filter (\<lambda>u. let cat = categorize_url u in
                  if name = ''OTHER'' then cat \<notin> set (butlast names) else cat = name)
       (kept_urls f all_urls)"

section \<open>Night-ops cleanup\<close>

text \<open>
  The file system is a list of entries, a path with the kind of node found there;
  paths are compared as they are written. A directory is empty when no entry lies
  inside it, that is below its path and a \<^verbatim>\<open>/\<close>. \<^verbatim>\<open>rmdir\<close> removes an empty
  directory, \<^verbatim>\<open>remove\<close> a file or an empty directory; both leave the file system as
  it is when they fail.
\<close>

datatype node = RegularFile | Directory

type_synonym filesystem = "(string \<times> node) list"

definition inside :: "string \<Rightarrow> string \<Rightarrow> bool" where
  "inside dir p =
     (prefix dir p \<and> length dir < length p \<and>
      ((dir \<noteq> [] \<and> last dir = CHR ''/'') \<or> p ! length dir = CHR ''/''))"

definition dir_is_empty :: "filesystem \<Rightarrow> string \<Rightarrow> bool" where
  "dir_is_empty fs dir = list_all (\<lambda>entry. \<not> inside dir (fst entry)) fs"

definition delete_entry :: "filesystem \<Rightarrow> string \<Rightarrow> filesystem" where
  "delete_entry fs path = filter (\<lambda>entry. fst entry \<noteq> path) fs"

definition stat_is_dir :: "filesystem \<Rightarrow> string \<Rightarrow> bool" where
  "stat_is_dir fs path = (case map_of fs path of Some Directory \<Rightarrow> True | _ \<Rightarrow> False)"

definition rmdir :: "filesystem \<Rightarrow> string \<Rightarrow> filesystem" where
  "rmdir fs path =
     (case map_of fs path of
        Some Directory \<Rightarrow> if dir_is_empty fs path then delete_entry fs path else fs
      | _ \<Rightarrow> fs)"

definition remove_path :: "filesystem \<Rightarrow> string \<Rightarrow> filesystem" where
  "remove_path fs path =
     (case map_of fs path of
        Some RegularFile \<Rightarrow> delete_entry fs path
      | Some Directory \<Rightarrow> rmdir fs path
      | None \<Rightarrow> fs)"

text \<open>
  The directory of the executable: the path up to its last \<^verbatim>\<open>/\<close> or \<^verbatim>\<open>\\<close>, or
  \<^verbatim>\<open>"."\<close> when it has none.
\<close>

definition is_sep :: "char \<Rightarrow> bool" where
  "is_sep c = (c = CHR ''/'' \<or> c = CHR 0x5C)"

definition exe_dir :: "string \<Rightarrow> string" where
  "exe_dir exe =
     (if list_ex is_sep exe then rev (drop 1 (dropWhile (\<lambda>c. \<not> is_sep c) (rev exe)))
      else ''.'')"

definition night_ops_cleanup :: "string option \<Rightarrow> filesystem \<Rightarrow> filesystem" where
  "night_ops_cleanup g_exe_path fs =
     (case g_exe_path of
        None \<Rightarrow> fs
      | Some exe \<Rightarrow>
          let kno_dir = exe_dir exe @ ''/.kno-url'';
              fs1 = (if stat_is_dir fs kno_dir then rmdir fs kno_dir else fs)
          in remove_path fs1 exe)"

section \<open>The session loop: one input line\<close>

text \<open>
  What one pass of the loop in \<^verbatim>\<open>main\<close> does with a line: every message that the
  pass can print, and every way it can end, is one constructor.
\<close>

datatype outcome =
    NoUrlEmptyLine
  | NoUrlNoTokens
  | HelpShown
  | NightOpsCanceledUnread
  | NightOpsCanceled
  | NightOpsCleanup
  | NoUrlDetected
  | SdRequiresDuration
  | SdInvalidDuration string
  | SdWithoutNightOps
  | NightOpsWithoutSd
  | NetworkCanceledUnread
  | NetworkUnsupported
  | NetworkCanceled
  | UnknownFlag string
  | Scraped string "string list"
  | ScrapedThenCleanup string "string list" long

text \<open>The line has its final newline removed.\<close>

definition chomp :: "string \<Rightarrow> string" where
  "chomp line = (if line \<noteq> [] \<and> last line = CHR 0x0A then butlast line else line)"

text \<open>\<^verbatim>\<open>split_tokens\<close>: at most \<open>max_tokens\<close> maximal runs of bytes that are not white space.\<close>

fun split_tokens :: "string \<Rightarrow> nat \<Rightarrow> string list" where
  "split_tokens p 0 = []"
| "split_tokens p (Suc n) =
     (if p = [] then []
      else
        let p1 = dropWhile isspace p in
        if p1 = [] then []
        else takeWhile (\<lambda>c. \<not> isspace c) p1
               # split_tokens (drop 1 (dropWhile (\<lambda>c. \<not> isspace c) p1)) n)"

text \<open>\<^verbatim>\<open>t[0] == '-'\<close>, and the test of the first byte of a confirmation.\<close>

definition starts_dash :: "string \<Rightarrow> bool" where
  "starts_dash t = (case t of [] \<Rightarrow> False | c # cs \<Rightarrow> c = CHR ''-'')"

definition affirmative :: "string \<Rightarrow> bool" where
  "affirmative ans = (case ans of [] \<Rightarrow> False | c # cs \<Rightarrow> c = CHR ''y'' \<or> c = CHR ''Y'')"

text \<open>
  URL detection returns the URL and \<^verbatim>\<open>arg_start\<close>. The last branch scans all tokens
  for one that starts with \<^verbatim>\<open>http://\<close>, \<^verbatim>\<open>https://\<close> or \<^verbatim>\<open>www.\<close>.
\<close>

fun scan_for_url :: "string list \<Rightarrow> nat \<Rightarrow> string option \<times> nat" where
  "scan_for_url [] i = (None, 0)"
| "scan_for_url (t # ts) i =
     (if prefix ''http://'' t \<or> prefix ''https://'' t \<or> prefix ''www.'' t
      then (normalize_url t, i + 1)
      else scan_for_url ts (i + 1))"

fun find_url :: "string list \<Rightarrow> string option \<times> nat" where
  "find_url [] = (None, 0)"
| "find_url (t0 # ts) =
     (if t0 = ''-u'' \<and> length (t0 # ts) \<ge> 2 then (normalize_url (hd ts), 2)
      else if \<not> starts_dash t0 then (normalize_url t0, 1)
      else scan_for_url (t0 # ts) 0)"

text \<open>
  The duration buffer: each \<^verbatim>\<open>strncat\<close> into \<^verbatim>\<open>durbuf[128]\<close> appends what still fits
  in 127 bytes; the tokens after \<^verbatim>\<open>-sd\<close> are joined by single spaces.
\<close>

definition strncat_durbuf :: "string \<Rightarrow> string \<Rightarrow> string" where
  "strncat_durbuf durbuf src = durbuf @ take (128 - length durbuf - 1) src"

fun build_durbuf :: "string \<Rightarrow> bool \<Rightarrow> string list \<Rightarrow> string" where
  "build_durbuf durbuf first [] = durbuf"
| "build_durbuf durbuf first (a # as) =
     build_durbuf
       (strncat_durbuf (if first then durbuf else strncat_durbuf durbuf '' '') a) False as"

text \<open>
  The loop over the arguments that handles the first \<^verbatim>\<open>-sd\<close>: \<open>i\<close> is its index and
  \<open>j\<close> the index after the run of tokens that do not start with a dash. It ends the pass
  with a message, or leaves the arguments without \<open>args[i..j-1]\<close> and the parsed seconds
  (- 1 when there is no \<^verbatim>\<open>-sd\<close>).
\<close>

definition sd_stage :: "string list \<Rightarrow> outcome + (string list \<times> long)" where
  "sd_stage args =
     (let i = length (takeWhile (\<lambda>a. a \<noteq> ''-sd'') args) in
      if i = length args then Inr (args, - 1)
      else
        let vals = takeWhile (\<lambda>a. \<not> starts_dash a) (drop (i + 1) args);
            j = i + 1 + length vals;
            durbuf = build_durbuf [] True vals
        in if durbuf = [] then Inl SdRequiresDuration
           else
             let sd_seconds = parse_duration_seconds durbuf in
             if sd_seconds \<le>s 0 then Inl (SdInvalidDuration durbuf)
             else Inr (take i args @ drop j args, sd_seconds))"

definition valid_flags :: "string list" where
  "valid_flags = [''-s'', ''-md'', ''-a'', ''-d'', ''-ht'', ''-O'', ''--no-media'', ''--search'',
                  ''--full'', ''-o'', ''-u'', ''-h'', ''--help'']"

text \<open>The first argument that starts with a dash and is not a valid flag.\<close>

definition first_unknown :: "string list \<Rightarrow> string option" where
  "first_unknown args = find (\<lambda>a. starts_dash a \<and> a \<notin> set valid_flags) args"

text \<open>
  The rest of the pass, once a URL is there. \<open>ans\<close> is the line that a confirmation
  prompt reads (\<open>None\<close> when \<^verbatim>\<open>fgets\<close> fails), \<open>run_html\<close> is what \<^verbatim>\<open>run_html_mode\<close>
  does to the file system (it may write the \<^verbatim>\<open>-o\<close> file). The result is the outcome,
  the file system, and whether the loop goes on.
\<close>

definition run_command ::
  "(string \<Rightarrow> string list \<Rightarrow> filesystem \<Rightarrow> filesystem) \<Rightarrow> string option \<Rightarrow> filesystem \<Rightarrow>
   string \<Rightarrow> string list \<Rightarrow> string option \<Rightarrow> outcome \<times> filesystem \<times> bool" where
  "run_command run_html g_exe_path fs url args ans =
     (let night_ops = list_ex (\<lambda>a. a = ''--night-ops'') args in
      case sd_stage args of
        Inl rejection \<Rightarrow> (rejection, fs, True)
      | Inr (args1, sd_seconds) \<Rightarrow>
          if 0 \<le>s sd_seconds \<and> \<not> night_ops then (SdWithoutNightOps, fs, True)
          else if night_ops \<and> sd_seconds <s 0 then (NightOpsWithoutSd, fs, True)
          else
            let args2 = (if night_ops then filter (\<lambda>a. a \<noteq> ''--night-ops'') args1 else args1) in
            if list_ex (\<lambda>a. a = ''-n'') args2 then
              (case ans of
                 None \<Rightarrow> (NetworkCanceledUnread, fs, True)
               | Some a \<Rightarrow>
                   if affirmative a then (NetworkUnsupported, fs, True)
                   else (NetworkCanceled, fs, True))
            else
              (case first_unknown args2 of
                 Some bad \<Rightarrow> (UnknownFlag bad, fs, True)
               | None \<Rightarrow>
                   let fs1 = run_html url args2 fs in
                   if night_ops \<and> 0 <s sd_seconds
                   then (ScrapedThenCleanup url args2 sd_seconds,
                         night_ops_cleanup g_exe_path fs1, False)
                   else (Scraped url args2, fs1, True)))"

definition session_step ::
  "(string \<Rightarrow> string list \<Rightarrow> filesystem \<Rightarrow> filesystem) \<Rightarrow> string option \<Rightarrow> filesystem \<Rightarrow>
   string \<Rightarrow> string option \<Rightarrow> outcome \<times> filesystem \<times> bool" where
  "session_step run_html g_exe_path fs line0 ans =
     (let line = chomp line0 in
      if line = [] then (NoUrlEmptyLine, fs, True)
      else
        let tokens = split_tokens line 64 in
        if tokens = [] then (NoUrlNoTokens, fs, True)
        else if tokens = [''-h''] \<or> tokens = [''--help''] then (HelpShown, fs, True)
        else if tokens = [''--night-ops''] then
          (case ans of
             None \<Rightarrow> (NightOpsCanceledUnread, fs, True)
           | Some a \<Rightarrow>
               if affirmative a then (NightOpsCleanup, night_ops_cleanup g_exe_path fs, False)
               else (NightOpsCanceled, fs, True))
        else
          (case find_url tokens of
             (None, arg_start) \<Rightarrow> (NoUrlDetected, fs, True)
           | (Some url, arg_start) \<Rightarrow>
               run_command run_html g_exe_path fs url (drop arg_start tokens) ans))"

text \<open>A file system with the executable and an empty cache directory beside it.\<close>

definition example_fs :: filesystem where
  "example_fs = [(''./kno-url'', RegularFile), (''./.kno-url'', Directory)]"

section \<open>Substring search\<close>

declare scan_scheme.simps [simp del]

lemma strstr_None_iff: "strstr h n = None \<longleftrightarrow> \<not> sublist n h"
  by (induction h) (auto simp: sublist_Cons_right)

lemma strstr_found_iff: "strstr h n \<noteq> None \<longleftrightarrow> sublist n h"
  by (simp add: strstr_None_iff)

lemma strcasestr_bool_iff:
  "strcasestr_bool h n \<longleftrightarrow>
     n \<noteq> [] \<and> (\<exists>m. sublist m h \<and> map tolower m = map tolower n)"
proof (cases "n = [] \<or> length n > length h")
  case True
  then show ?thesis
  proof
    assume "n = []" then show ?thesis by (simp add: strcasestr_bool_def)
  next
    assume long: "length n > length h"
    have "\<not> (\<exists>m. sublist m h \<and> map tolower m = map tolower n)"
    proof
      assume "\<exists>m. sublist m h \<and> map tolower m = map tolower n"
      then obtain m where m: "sublist m h" "map tolower m = map tolower n" by blast
      from m(2) have "length m = length n" by (metis length_map)
      moreover from m(1) have "length m \<le> length h" by (auto simp: sublist_def)
      ultimately show False using long by simp
    qed
    with long show ?thesis by (simp add: strcasestr_bool_def)
  qed
next
  case False
  then have n: "n \<noteq> []" and len: "length n \<le> length h" by auto
  have "(\<exists>i. i \<le> length h - length n \<and>
           map tolower (take (length n) (drop i h)) = map tolower n)
        \<longleftrightarrow> (\<exists>m. sublist m h \<and> map tolower m = map tolower n)" (is "?L \<longleftrightarrow> ?R")
  proof
    assume ?L
    then obtain i where i: "i \<le> length h - length n"
      and eq: "map tolower (take (length n) (drop i h)) = map tolower n" by blast
    have "h = take i h @ take (length n) (drop i h) @ drop (length n) (drop i h)"
      by (simp only: append_take_drop_id)
    then have "sublist (take (length n) (drop i h)) h"
      unfolding sublist_def by blast
    with eq show ?R by blast
  next
    assume ?R
    then obtain m ps ss where h: "h = ps @ m @ ss" and eq: "map tolower m = map tolower n"
      by (auto simp: sublist_def)
    from eq have lm: "length m = length n" by (metis length_map)
    have "take (length n) (drop (length ps) h) = m" using h lm by simp
    moreover have "length ps \<le> length h - length n" using h lm by simp
    ultimately show ?L using eq by blast
  qed
  moreover have "list_ex Q [0 ..< k + 1] \<longleftrightarrow> (\<exists>i. i \<le> k \<and> Q i)" for Q and k :: nat
    by (auto simp: list_ex_iff less_Suc_eq_le simp del: upt_Suc)
  moreover have "strcasestr_bool h n =
      list_ex (\<lambda>i. map tolower (take (length n) (drop i h)) = map tolower n)
        [0 ..< length h - length n + 1]"
    using n len by (simp add: strcasestr_bool_def)
  ultimately show ?thesis using n by (simp only: simp_thms)
qed

lemma strstr_Some_decomp:
  "strstr h n = Some r \<Longrightarrow> prefix n r \<and> (\<exists>pre. h = pre @ r)"
proof (induction h)
  case Nil
  then show ?case by (simp split: if_splits)
next
  case (Cons c cs)
  show ?case
  proof (cases "prefix n (c # cs)")
    case True
    with Cons.prems show ?thesis by simp
  next
    case False
    with Cons.prems have "strstr cs n = Some r" by simp
    with Cons.IH obtain pre where "prefix n r" "cs = pre @ r" by blast
    then have "c # cs = (c # pre) @ r" by simp
    with \<open>prefix n r\<close> show ?thesis by blast
  qed
qed

section \<open>Properties of the URL normalizer\<close>

text \<open>
  Claim C9. URL normalization is idempotent: for every non-empty token \<open>u\<close> the
  normalizer returns a string, and normalizing that string again returns it unchanged.
\<close>

theorem normalize_url_idempotent:
  assumes "u \<noteq> []"
  shows "\<exists>v. normalize_url u = Some v \<and> normalize_url v = Some v"
  using assms by (auto simp: normalize_url_def)

theorem normalize_url_idempotent_witness:
  "''example.com'' \<noteq> [] \<and>
   normalize_url ''example.com'' = Some ''https://example.com'' \<and>
   normalize_url ''https://example.com'' = Some ''https://example.com''"
  using normalize_url_idempotent [of "''example.com''"]
  by (simp add: normalize_url_def strchr_found_def)

section \<open>Properties of the categorizer\<close>

lemma categorize_url_in_names: "categorize_url u \<in> set names"
  by (simp add: categorize_url_def names_def Let_def)

lemma names_distinct: "distinct names \<and> length names = 6"
  by (simp add: names_def)

text \<open>
  Claim C7. The categorizer is a function whose value is always one of the six labels,
  and the labels are distinct; a URL that contains \<^verbatim>\<open>/api/\<close>, or a stretch whose
  lower-cased bytes are \<^verbatim>\<open>graphql\<close>, is labelled API / ENDPOINTS whatever its
  extension.
\<close>

theorem categorize_url_total_api_first:
  "categorize_url u \<in> set names \<and> distinct names \<and> length names = 6 \<and>
   (sublist ''/api/'' u \<or> (\<exists>m. sublist m u \<and> map tolower m = ''graphql'')
      \<longrightarrow> categorize_url u = ''API / ENDPOINTS'')"
proof -
  have low: "map tolower ''graphql'' = ''graphql''"
    by (simp add: tolower_def)
  have "categorize_url u = ''API / ENDPOINTS''"
    if "sublist ''/api/'' u \<or> (\<exists>m. sublist m u \<and> map tolower m = ''graphql'')"
  proof -
    from that have "strstr u ''/api/'' \<noteq> None \<or> strcasestr_bool u ''graphql''"
      unfolding strstr_found_iff strcasestr_bool_iff low by simp
    then show ?thesis by (auto simp: categorize_url_def Let_def)
  qed
  with categorize_url_in_names names_distinct show ?thesis by blast
qed

lemma api_json_ext: "lower_ext_of (get_ext ''https://example.com/api/x.json'') = ''.json''"
  by (simp add: lower_ext_of_def get_ext_def strchr_found_def tolower_def)

text \<open>The URL of the claim: its extension is \<^verbatim>\<open>.json\<close>, its label API / ENDPOINTS.\<close>

theorem categorize_url_total_api_first_witness:
  "sublist ''/api/'' ''https://example.com/api/x.json'' \<and>
   lower_ext_of (get_ext ''https://example.com/api/x.json'') = ''.json'' \<and>
   categorize_url ''https://example.com/api/x.json'' = ''API / ENDPOINTS''"
proof -
  have sub: "sublist ''/api/'' ''https://example.com/api/x.json''"
    unfolding sublist_def
    by (rule exI [of _ "''https://example.com''"], rule exI [of _ "''x.json''"]) simp
  with categorize_url_total_api_first [of "''https://example.com/api/x.json''"] api_json_ext
  show ?thesis by blast
qed

lemma lower_graphql: "map tolower ''graphql'' = ''graphql''"
  by (simp add: tolower_def)

text \<open>
  What the substring test of the fourth branch still catches: a URL that contains
  \<^verbatim>\<open>.bundle.js\<close> or \<^verbatim>\<open>.chunk.js\<close>, does not match the API rule, and has a
  lower-cased extension in none of the tables of SCRIPTS, MEDIA and
  DOCUMENTS / CONFIG.
\<close>

lemma bundle_with_other_extension:
  assumes "sublist ''.bundle.js'' u \<or> sublist ''.chunk.js'' u"
    and "\<not> sublist ''/api/'' u"
    and "\<not> (\<exists>m. sublist m u \<and> map tolower m = ''graphql'')"
    and "lower_ext_of (get_ext u) \<notin> set [''.js'', ''.mjs'',
           ''.png'', ''.jpg'', ''.jpeg'', ''.gif'', ''.svg'', ''.webp'', ''.ico'', ''.mp4'',
           ''.mov'', ''.wav'',
           ''.json'', ''.xml'', ''.yml'', ''.yaml'', ''.pdf'', ''.txt'', ''.doc'', ''.docx'',
           ''.csv'']"
  shows "categorize_url u = ''HTML / FRAMEWORK''"
proof -
  from assms(2) have api: "strstr u ''/api/'' = None"
    by (simp add: strstr_None_iff)
  from assms(3) have gql: "\<not> strcasestr_bool u ''graphql''"
    unfolding strcasestr_bool_iff lower_graphql by simp
  from assms(1) have bjs: "strstr u ''.bundle.js'' \<noteq> None \<or> strstr u ''.chunk.js'' \<noteq> None"
    by (simp only: strstr_found_iff)
  from assms(4) have ext: "lower_ext_of (get_ext u) \<noteq> ''.js''" "lower_ext_of (get_ext u) \<noteq> ''.mjs''"
    "lower_ext_of (get_ext u) \<noteq> ''.png''" "lower_ext_of (get_ext u) \<noteq> ''.jpg''"
    "lower_ext_of (get_ext u) \<noteq> ''.jpeg''" "lower_ext_of (get_ext u) \<noteq> ''.gif''"
    "lower_ext_of (get_ext u) \<noteq> ''.svg''" "lower_ext_of (get_ext u) \<noteq> ''.webp''"
    "lower_ext_of (get_ext u) \<noteq> ''.ico''" "lower_ext_of (get_ext u) \<noteq> ''.mp4''"
    "lower_ext_of (get_ext u) \<noteq> ''.mov''" "lower_ext_of (get_ext u) \<noteq> ''.wav''"
    "lower_ext_of (get_ext u) \<noteq> ''.json''" "lower_ext_of (get_ext u) \<noteq> ''.xml''"
    "lower_ext_of (get_ext u) \<noteq> ''.yml''" "lower_ext_of (get_ext u) \<noteq> ''.yaml''"
    "lower_ext_of (get_ext u) \<noteq> ''.pdf''" "lower_ext_of (get_ext u) \<noteq> ''.txt''"
    "lower_ext_of (get_ext u) \<noteq> ''.doc''" "lower_ext_of (get_ext u) \<noteq> ''.docx''"
    "lower_ext_of (get_ext u) \<noteq> ''.csv''"
    by auto
  show ?thesis
    unfolding categorize_url_def Let_def using api gql bjs ext by (simp only: simp_thms if_False if_True)
qed

lemma versioned_has_bundle:
  "strstr ''https://cdn.example.com/app.bundle.js?v=3'' ''.bundle.js'' \<noteq> None"
  by code_simp

lemma versioned_no_api: "strstr ''https://cdn.example.com/app.bundle.js?v=3'' ''/api/'' = None"
  by code_simp

lemma versioned_no_graphql:
  "\<not> strcasestr_bool ''https://cdn.example.com/app.bundle.js?v=3'' ''graphql''"
  by code_simp

lemma versioned_ext:
  "lower_ext_of (get_ext ''https://cdn.example.com/app.bundle.js?v=3'') = ''.js?v=3''"
  by code_simp

text \<open>A bundle with a query string: its extension is \<^verbatim>\<open>.js?v=3\<close>.\<close>

lemma versioned_bundle_is_framework:
  "sublist ''.bundle.js'' ''https://cdn.example.com/app.bundle.js?v=3'' \<and>
   \<not> sublist ''/api/'' ''https://cdn.example.com/app.bundle.js?v=3'' \<and>
   lower_ext_of (get_ext ''https://cdn.example.com/app.bundle.js?v=3'') = ''.js?v=3'' \<and>
   categorize_url ''https://cdn.example.com/app.bundle.js?v=3'' = ''HTML / FRAMEWORK''"
proof -
  let ?u = "''https://cdn.example.com/app.bundle.js?v=3''"
  have 1: "sublist ''.bundle.js'' ?u"
    by (rule iffD1 [OF strstr_found_iff versioned_has_bundle])
  have 2: "\<not> sublist ''/api/'' ?u"
    by (rule iffD1 [OF strstr_None_iff versioned_no_api])
  have 3: "\<not> (\<exists>m. sublist m ?u \<and> map tolower m = ''graphql'')"
    using versioned_no_graphql unfolding strcasestr_bool_iff lower_graphql by simp
  have "categorize_url ?u = ''HTML / FRAMEWORK''"
  proof (rule bundle_with_other_extension)
    show "sublist ''.bundle.js'' ?u \<or> sublist ''.chunk.js'' ?u" using 1 by blast
    show "\<not> sublist ''/api/'' ?u" by (rule 2)
    show "\<not> (\<exists>m. sublist m ?u \<and> map tolower m = ''graphql'')" by (rule 3)
    show "lower_ext_of (get_ext ?u) \<notin> set [''.js'', ''.mjs'',
           ''.png'', ''.jpg'', ''.jpeg'', ''.gif'', ''.svg'', ''.webp'', ''.ico'', ''.mp4'',
           ''.mov'', ''.wav'',
           ''.json'', ''.xml'', ''.yml'', ''.yaml'', ''.pdf'', ''.txt'', ''.doc'', ''.docx'',
           ''.csv'']"
      by (simp add: versioned_ext)
  qed
  with 1 2 versioned_ext show ?thesis by blast
qed

lemma plain_has_bundle: "strstr ''https://cdn.example.com/app.bundle.js'' ''.bundle.js'' \<noteq> None"
  by code_simp

lemma plain_no_api: "strstr ''https://cdn.example.com/app.bundle.js'' ''/api/'' = None"
  by code_simp

lemma plain_no_graphql: "\<not> strcasestr_bool ''https://cdn.example.com/app.bundle.js'' ''graphql''"
  by code_simp

lemma plain_is_scripts: "categorize_url ''https://cdn.example.com/app.bundle.js'' = ''SCRIPTS''"
  by code_simp

lemma strrchr_append: "strrchr s c = Some r \<Longrightarrow> strrchr (p @ s) c = Some r"
  by (induction p) simp_all

lemma get_ext_js_suffix:
  assumes "suffix ''.bundle.js'' u \<or> suffix ''.chunk.js'' u"
  shows "lower_ext_of (get_ext u) = ''.js''"
proof -
  have b: "strrchr ''.bundle.js'' CHR ''.'' = Some ''.js''" by simp
  have c: "strrchr ''.chunk.js'' CHR ''.'' = Some ''.js''" by simp
  from assms obtain p where "u = p @ ''.bundle.js'' \<or> u = p @ ''.chunk.js''"
    by (auto simp: suffix_def)
  then have "strrchr u CHR ''.'' = Some ''.js''"
    using strrchr_append [OF b, of p] strrchr_append [OF c, of p] by auto
  then show ?thesis
    by (simp add: get_ext_def strchr_found_def lower_ext_of_def tolower_def)
qed

text \<open>
  Claim C3 does not hold of the code. A URL that ends in \<^verbatim>\<open>.bundle.js\<close> or
  \<^verbatim>\<open>.chunk.js\<close> and does not match the API rule has the extension \<^verbatim>\<open>.js\<close>, so the
  SCRIPTS test, which comes first, labels it SCRIPTS: the substring test of the
  HTML / FRAMEWORK branch is never reached for the URLs it is written for, and the claim
  labels them HTML / FRAMEWORK.
\<close>

theorem bundle_suffix_is_scripts:
  assumes "suffix ''.bundle.js'' u \<or> suffix ''.chunk.js'' u"
    and "\<not> sublist ''/api/'' u"
    and "\<not> (\<exists>m. sublist m u \<and> map tolower m = ''graphql'')"
  shows "categorize_url u = ''SCRIPTS''"
proof -
  from assms(2) have api: "strstr u ''/api/'' = None"
    by (simp add: strstr_None_iff)
  from assms(3) have gql: "\<not> strcasestr_bool u ''graphql''"
    unfolding strcasestr_bool_iff lower_graphql by simp
  from get_ext_js_suffix [OF assms(1)] api gql show ?thesis
    by (simp add: categorize_url_def)
qed

text \<open>A URL that ends in \<^verbatim>\<open>.bundle.js\<close>.\<close>

theorem bundle_suffix_is_scripts_witness:
  "suffix ''.bundle.js'' ''https://cdn.example.com/app.bundle.js'' \<and>
   sublist ''.bundle.js'' ''https://cdn.example.com/app.bundle.js'' \<and>
   \<not> sublist ''/api/'' ''https://cdn.example.com/app.bundle.js'' \<and>
   \<not> strcasestr_bool ''https://cdn.example.com/app.bundle.js'' ''graphql'' \<and>
   categorize_url ''https://cdn.example.com/app.bundle.js'' = ''SCRIPTS'' \<and>
   categorize_url ''https://cdn.example.com/app.bundle.js'' \<noteq> ''HTML / FRAMEWORK''"
proof -
  let ?u = "''https://cdn.example.com/app.bundle.js''"
  have 1: "suffix ''.bundle.js'' ?u"
    unfolding suffix_def by (rule exI [of _ "''https://cdn.example.com/app''"]) simp
  have 2: "\<not> sublist ''/api/'' ?u"
    by (rule iffD1 [OF strstr_None_iff plain_no_api])
  have 3: "\<not> (\<exists>m. sublist m ?u \<and> map tolower m = ''graphql'')"
    using plain_no_graphql unfolding strcasestr_bool_iff lower_graphql by simp
  have 4: "sublist ''.bundle.js'' ?u"
    by (rule iffD1 [OF strstr_found_iff plain_has_bundle])
  have "categorize_url ?u = ''SCRIPTS''"
  proof (rule bundle_suffix_is_scripts)
    show "suffix ''.bundle.js'' ?u \<or> suffix ''.chunk.js'' ?u" using 1 by blast
    show "\<not> sublist ''/api/'' ?u" by (rule 2)
    show "\<not> (\<exists>m. sublist m ?u \<and> map tolower m = ''graphql'')" by (rule 3)
  qed
  moreover from this have "categorize_url ?u \<noteq> ''HTML / FRAMEWORK''" by simp
  ultimately show ?thesis using 1 2 4 plain_no_graphql by blast
qed

section \<open>Properties of the duration parser\<close>

lemmas duration_defs = parse_duration_seconds_def isspace_def isdigit_def tolower_def
  digits_value_def digit_val_def atol_def word_sless_alt word_sle_eq

lemma parse_90s: "parse_duration_seconds ''90s'' = 90"
  by (simp add: duration_defs)

lemma parse_1h30m: "parse_duration_seconds ''1h30m'' = 5400"
  by (simp add: duration_defs)

lemma parse_bare_2: "parse_duration_seconds ''2'' = 2"
  by (simp add: duration_defs)

lemma parse_0s: "parse_duration_seconds ''0s'' = - 1"
  by (simp add: duration_defs)

lemma parse_abc: "parse_duration_seconds ''abc'' = - 1"
  by (simp add: duration_defs)

text \<open>
  Claim C6. The duration parser maps \<^verbatim>\<open>90s\<close> to 90, \<^verbatim>\<open>1h30m\<close> to 5400 and the
  bare digits \<^verbatim>\<open>2\<close> to 2; for \<^verbatim>\<open>0s\<close> and for \<^verbatim>\<open>abc\<close> it returns - 1, its
  rejection.
\<close>

theorem parse_duration_examples:
  "parse_duration_seconds ''90s'' = 90 \<and>
   parse_duration_seconds ''1h30m'' = 5400 \<and>
   parse_duration_seconds ''2'' = 2 \<and>
   parse_duration_seconds ''0s'' = - 1 \<and>
   parse_duration_seconds ''abc'' = - 1"
  by (intro conjI parse_90s parse_1h30m parse_bare_2 parse_0s parse_abc)

text \<open>The caller turns the two rejections into its invalid-duration message.\<close>

lemma sd_stage_rejects_0s: "sd_stage [''-sd'', ''0s''] = Inl (SdInvalidDuration ''0s'')"
  by (simp add: sd_stage_def starts_dash_def strncat_durbuf_def parse_0s word_sle_eq)

lemma sd_stage_rejects_abc: "sd_stage [''-sd'', ''abc''] = Inl (SdInvalidDuration ''abc'')"
  by (simp add: sd_stage_def starts_dash_def strncat_durbuf_def parse_abc word_sle_eq)

section \<open>Properties of the extractor\<close>

lemma scheme_literal_url_chars: "list_all url_char (scheme_literal sc)"
  by (cases sc) (simp_all add: url_char_def isspace_def)

lemma scheme_literal_nonempty: "scheme_literal sc \<noteq> []"
  by (cases sc) simp_all

lemma prefix_takeWhile_all:
  assumes "prefix lit s" and "list_all P lit"
  shows "prefix lit (takeWhile P s)"
proof -
  from assms(1) obtain r where "s = lit @ r" by (auto simp: prefix_def)
  moreover from assms(2) have "takeWhile P (lit @ r) = lit @ takeWhile P r"
    by (simp add: list_all_iff)
  ultimately show ?thesis by simp
qed

lemma dropWhile_boundary: "dropWhile P s = [] \<or> \<not> P (hd (dropWhile P s))"
  by (metis hd_dropWhile)

lemma scan_scheme_unfold_None:
  "strstr p (scheme_literal sc) = None \<Longrightarrow> scan_scheme sc p = []"
  by (simp add: scan_scheme.simps [of sc p])

lemma scan_scheme_unfold_Some:
  "strstr p (scheme_literal sc) = Some start \<Longrightarrow>
   scan_scheme sc p = takeWhile url_char start # scan_scheme sc (dropWhile url_char start)"
  by (simp add: scan_scheme.simps [of sc p])

lemma scan_scheme_token:
  "t \<in> set (scan_scheme sc p) \<Longrightarrow>
   prefix (scheme_literal sc) t \<and> list_all url_char t \<and>
   (\<exists>pre rest. p = pre @ t @ rest \<and> (rest = [] \<or> \<not> url_char (hd rest)))"
proof (induction sc p rule: scan_scheme.induct)
  case (1 sc p)
  show ?case
  proof (cases "strstr p (scheme_literal sc)")
    case None
    with "1.prems" show ?thesis by (simp add: scan_scheme_unfold_None)
  next
    case (Some start)
    from strstr_Some_decomp [OF Some] obtain pre0
      where pre: "prefix (scheme_literal sc) start" and p: "p = pre0 @ start" by blast
    let ?tok = "takeWhile url_char start" and ?q = "dropWhile url_char start"
    from "1.prems" Some have "t = ?tok \<or> t \<in> set (scan_scheme sc ?q)"
      by (simp add: scan_scheme_unfold_Some)
    then show ?thesis
    proof
      assume t: "t = ?tok"
      have "prefix (scheme_literal sc) t"
        unfolding t using pre scheme_literal_url_chars by (rule prefix_takeWhile_all)
      moreover have "list_all url_char t"
        unfolding t list_all_iff by (auto dest: set_takeWhileD)
      moreover have "p = pre0 @ t @ ?q" by (simp add: p t)
      ultimately show ?thesis using dropWhile_boundary [of url_char start] by blast
    next
      assume "t \<in> set (scan_scheme sc ?q)"
      with "1.IH" [OF Some] obtain pre' rest
        where a: "prefix (scheme_literal sc) t" "list_all url_char t"
          and q: "?q = pre' @ t @ rest" and r: "rest = [] \<or> \<not> url_char (hd rest)"
        by blast
      have "start = ?tok @ ?q" by simp
      with q have "p = (pre0 @ ?tok @ pre') @ t @ rest" by (simp add: p)
      with a r show ?thesis by blast
    qed
  qed
qed

lemma url_char_iff:
  "url_char c \<longleftrightarrow> \<not> isspace c \<and> c \<notin> set [CHR 0x22, CHR 0x27, CHR ''<'', CHR ''>'']"
  by (simp add: url_char_def)

text \<open>
  Claim C10. Every token that the extractor returns begins with \<^verbatim>\<open>http://\<close>,
  \<^verbatim>\<open>https://\<close> or \<^verbatim>\<open>blob:\<close> and contains no white space and none of the
  characters \<^verbatim>\<open>" ' < >\<close>.
\<close>

theorem extracted_tokens_wellformed:
  "\<forall>t \<in> set (extract_urls_from_html html).
     (prefix ''http://'' t \<or> prefix ''https://'' t \<or> prefix ''blob:'' t) \<and>
     (\<forall>c \<in> set t. \<not> isspace c \<and> c \<notin> set [CHR 0x22, CHR 0x27, CHR ''<'', CHR ''>''])"
proof
  fix t
  assume "t \<in> set (extract_urls_from_html html)"
  then obtain sc where "t \<in> set (scan_scheme sc html)"
    by (auto simp: extract_urls_from_html_def)
  from scan_scheme_token [OF this]
  have pre: "prefix (scheme_literal sc) t" and chars: "list_all url_char t" by simp_all
  from pre have "prefix ''http://'' t \<or> prefix ''https://'' t \<or> prefix ''blob:'' t"
    by (cases sc) simp_all
  moreover from chars
  have "\<forall>c \<in> set t. \<not> isspace c \<and> c \<notin> set [CHR 0x22, CHR 0x27, CHR ''<'', CHR ''>'']"
    by (simp add: list_all_iff url_char_iff)
  ultimately show "(prefix ''http://'' t \<or> prefix ''https://'' t \<or> prefix ''blob:'' t) \<and>
     (\<forall>c \<in> set t. \<not> isspace c \<and> c \<notin> set [CHR 0x22, CHR 0x27, CHR ''<'', CHR ''>''])"
    by blast
qed

lemma extract_example:
  "extract_urls_from_html ''<a href=\"https://a.org/x.png\">blob:77</a>''
     = [''https://a.org/x.png'', ''blob:77'']"
  by code_simp

theorem extracted_tokens_wellformed_witness:
  "''https://a.org/x.png'' \<in> set (extract_urls_from_html ''<a href=\"https://a.org/x.png\">blob:77</a>'') \<and>
   prefix ''https://'' ''https://a.org/x.png'' \<and>
   list_all (\<lambda>c. \<not> isspace c \<and> c \<notin> set [CHR 0x22, CHR 0x27, CHR ''<'', CHR ''>''])
     ''https://a.org/x.png''"
proof -
  have mem: "''https://a.org/x.png''
      \<in> set (extract_urls_from_html ''<a href=\"https://a.org/x.png\">blob:77</a>'')"
    by (simp add: extract_example)
  from extracted_tokens_wellformed [of "''<a href=\"https://a.org/x.png\">blob:77</a>''"] mem
  have "\<forall>c \<in> set ''https://a.org/x.png''.
      \<not> isspace c \<and> c \<notin> set [CHR 0x22, CHR 0x27, CHR ''<'', CHR ''>'']"
    by blast
  then have "list_all (\<lambda>c. \<not> isspace c \<and> c \<notin> set [CHR 0x22, CHR 0x27, CHR ''<'', CHR ''>''])
     ''https://a.org/x.png''"
    by (simp only: list_all_iff)
  with mem show ?thesis by simp
qed

lemma occurrences_strstr_None: "strstr p lit = None \<Longrightarrow> occurrences lit p = 0"
  by (induction p) (auto split: if_splits)

lemma occurrences_strstr_Some: "strstr p lit = Some start \<Longrightarrow> occurrences lit p = occurrences lit start"
  by (induction p) (auto split: if_splits)

lemma prefix_append_boundary:
  assumes "list_all P lit" and "b = [] \<or> \<not> P (hd b)"
  shows "prefix lit (a @ b) \<longleftrightarrow> prefix lit a"
proof
  assume "prefix lit (a @ b)"
  then have "prefix lit a \<or> (\<exists>us. lit = a @ us \<and> prefix us b)"
    by (simp add: prefix_append)
  then consider "prefix lit a" | us where "lit = a @ us" "prefix us b" "us \<noteq> []"
    by (cases "prefix lit a") auto
  then show "prefix lit a"
  proof cases
    case 1 then show ?thesis .
  next
    case 2
    then obtain u us' where us: "us = u # us'" by (cases us) auto
    with 2 obtain b' where "b = u # b'" by (cases b) auto
    moreover from 2 us assms(1) have "P u" by (simp add: list_all_iff)
    ultimately show ?thesis using assms(2) by simp
  qed
next
  assume "prefix lit a" then show "prefix lit (a @ b)" by (rule prefix_prefix)
qed

lemma occurrences_append_boundary:
  assumes "list_all P lit" and "b = [] \<or> \<not> P (hd b)"
  shows "occurrences lit (a @ b) = occurrences lit a + occurrences lit b"
proof (induction a)
  case Nil
  then show ?case by simp
next
  case (Cons x a)
  have "prefix lit ((x # a) @ b) \<longleftrightarrow> prefix lit (x # a)"
    using assms by (rule prefix_append_boundary)
  with Cons show ?case by simp
qed

lemma scan_scheme_occurrences:
  "sum_list (map (occurrences (scheme_literal sc)) (scan_scheme sc p))
     = occurrences (scheme_literal sc) p"
proof (induction sc p rule: scan_scheme.induct)
  case (1 sc p)
  show ?case
  proof (cases "strstr p (scheme_literal sc)")
    case None
    then show ?thesis by (simp add: scan_scheme_unfold_None occurrences_strstr_None)
  next
    case (Some start)
    let ?lit = "scheme_literal sc"
    let ?tok = "takeWhile url_char start" and ?q = "dropWhile url_char start"
    have "occurrences ?lit p = occurrences ?lit (?tok @ ?q)"
      using occurrences_strstr_Some [OF Some] by simp
    also have "\<dots> = occurrences ?lit ?tok + occurrences ?lit ?q"
      using scheme_literal_url_chars dropWhile_boundary
      by (rule occurrences_append_boundary)
    finally show ?thesis
      using "1.IH" [OF Some] by (simp add: scan_scheme_unfold_Some [OF Some])
  qed
qed

lemma occurrences_prefix_pos: "prefix lit t \<Longrightarrow> lit \<noteq> [] \<Longrightarrow> 1 \<le> occurrences lit t"
  by (cases t) auto

lemma length_le_sum_list:
  "(\<And>x. x \<in> set xs \<Longrightarrow> (1::nat) \<le> f x) \<Longrightarrow> length xs \<le> sum_list (map f xs)"
proof (induction xs)
  case Nil
  then show ?case by simp
next
  case (Cons a xs)
  have "1 \<le> f a" by (rule Cons.prems) simp
  moreover have "length xs \<le> sum_list (map f xs)"
  proof (rule Cons.IH)
    fix x assume "x \<in> set xs"
    then have "x \<in> set (a # xs)" by simp
    then show "1 \<le> f x" by (rule Cons.prems)
  qed
  ultimately show ?case by simp
qed

lemma sum_list_all_one:
  "(\<And>x. x \<in> set xs \<Longrightarrow> f x = (1::nat)) \<Longrightarrow> sum_list (map f xs) = length xs"
  by (induction xs) auto

text \<open>
  Claim C4, amended. The extractor returns the tokens of the three passes in turn. In
  the pass of one scheme the occurrences of the literal inside the returned tokens add
  up to the \<open>N\<close> occurrences in the text: there are at most \<open>N\<close> tokens, and exactly
  \<open>N\<close> when no token holds a second occurrence. Every token starts with the literal,
  lies in the text, has no white space and none of \<^verbatim>\<open>" ' < >\<close>, and is followed by
  such a byte or by the end of the text.
\<close>

theorem extractor_tokens_per_scheme:
  "extract_urls_from_html html = scan_scheme Http html @ scan_scheme Https html @ scan_scheme Blob html \<and>
   sum_list (map (occurrences (scheme_literal sc)) (scan_scheme sc html))
     = occurrences (scheme_literal sc) html \<and>
   length (scan_scheme sc html) \<le> occurrences (scheme_literal sc) html \<and>
   ((\<forall>t \<in> set (scan_scheme sc html). occurrences (scheme_literal sc) t = 1)
      \<longrightarrow> length (scan_scheme sc html) = occurrences (scheme_literal sc) html) \<and>
   (\<forall>t \<in> set (scan_scheme sc html).
      prefix (scheme_literal sc) t \<and> list_all url_char t \<and>
      (\<exists>pre rest. html = pre @ t @ rest \<and> (rest = [] \<or> \<not> url_char (hd rest))))"
proof -
  let ?lit = "scheme_literal sc" and ?toks = "scan_scheme sc html"
  have sum: "sum_list (map (occurrences ?lit) ?toks) = occurrences ?lit html"
    by (rule scan_scheme_occurrences)
  have "length ?toks \<le> sum_list (map (occurrences ?lit) ?toks)"
  proof (rule length_le_sum_list)
    fix t assume "t \<in> set ?toks"
    then have "prefix ?lit t" by (simp add: scan_scheme_token)
    then show "1 \<le> occurrences ?lit t"
      using scheme_literal_nonempty by (rule occurrences_prefix_pos)
  qed
  with sum have le: "length ?toks \<le> occurrences ?lit html" by simp
  have eq: "length ?toks = occurrences ?lit html"
    if "\<forall>t \<in> set ?toks. occurrences ?lit t = 1"
    using sum_list_all_one [of ?toks "occurrences ?lit"] that sum by simp
  have tok: "\<forall>t \<in> set ?toks.
      prefix ?lit t \<and> list_all url_char t \<and>
      (\<exists>pre rest. html = pre @ t @ rest \<and> (rest = [] \<or> \<not> url_char (hd rest)))"
    using scan_scheme_token by blast
  have "extract_urls_from_html html
      = scan_scheme Http html @ scan_scheme Https html @ scan_scheme Blob html"
    by (simp add: extract_urls_from_html_def)
  with sum le eq tok show ?thesis by blast
qed

lemma plain_scan:
  "scan_scheme Http ''<a href=\"http://a.com/x\">http://b.org</a>''
     = [''http://a.com/x'', ''http://b.org'']"
  by code_simp

lemma plain_occurrences:
  "occurrences ''http://'' ''http://a.com/x'' = 1 \<and> occurrences ''http://'' ''http://b.org'' = 1"
  by code_simp

theorem extractor_tokens_per_scheme_witness:
  "list_all (\<lambda>t. occurrences ''http://'' t = 1)
     (scan_scheme Http ''<a href=\"http://a.com/x\">http://b.org</a>'') \<and>
   ''http://b.org'' \<in> set (scan_scheme Http ''<a href=\"http://a.com/x\">http://b.org</a>'') \<and>
   occurrences ''http://'' ''<a href=\"http://a.com/x\">http://b.org</a>'' = 2 \<and>
   list_all url_char ''http://b.org''"
proof -
  let ?html = "''<a href=\"http://a.com/x\">http://b.org</a>''"
  have one: "\<forall>t \<in> set (scan_scheme Http ?html). occurrences (scheme_literal Http) t = 1"
    using plain_occurrences by (simp add: plain_scan)
  have mem: "''http://b.org'' \<in> set (scan_scheme Http ?html)"
    by (simp add: plain_scan)
  from extractor_tokens_per_scheme [of ?html Http] one
  have "length (scan_scheme Http ?html) = occurrences (scheme_literal Http) ?html"
    by blast
  then have n: "occurrences ''http://'' ?html = 2"
    by (simp add: plain_scan)
  from extractor_tokens_per_scheme [of ?html Http] mem
  have "list_all url_char ''http://b.org''"
    by blast
  moreover from one have "list_all (\<lambda>t. occurrences ''http://'' t = 1) (scan_scheme Http ?html)"
    by (simp add: list_all_iff)
  ultimately show ?thesis using mem n by simp
qed

lemma nested_scan: "scan_scheme Http ''see http://a.com/?u=http://b.com/ now'' = [''http://a.com/?u=http://b.com/'']"
  by code_simp
lemma nested_occ: "occurrences ''http://'' ''see http://a.com/?u=http://b.com/ now'' = 2"
  by code_simp

text \<open>
  Claim C4 as stated fails where an occurrence lies inside a token: two occurrences of
  \<^verbatim>\<open>http://\<close>, one token.
\<close>

theorem extractor_count_counterexample:
  "occurrences ''http://'' ''see http://a.com/?u=http://b.com/ now'' = 2 \<and>
   length (scan_scheme Http ''see http://a.com/?u=http://b.com/ now'') = 1 \<and>
   length (filter (prefix ''http://'') (extract_urls_from_html ''see http://a.com/?u=http://b.com/ now'')) = 1"
  by code_simp

section \<open>Properties of the filter stage\<close>

lemma excluded_eq_wanted: "excluded f cat = wanted f cat"
  by (simp add: excluded_def wanted_def)

text \<open>
  Claim C1 does not hold of the code. With a category flag and \<^verbatim>\<open>--no-media\<close> both
  set, a URL whose category is not flagged leaves the loop body in the first block, and
  a URL that passes the first block is wanted, hence excluded by the second: no URL is
  kept, whereas the claim keeps those whose category is not flagged.
\<close>

theorem exclusion_with_flags_keeps_nothing:
  "have_cat_flags f \<Longrightarrow> no_media_mode f \<Longrightarrow> kept_urls f all_urls = []"
  by (simp add: kept_urls_def category_keep_def excluded_eq_wanted)

lemma exclusion_flags_parsed:
  "parse_args [''-s'', ''--no-media''] initial_flags
     = initial_flags\<lparr>use_scripts := True, no_media_mode := True\<rparr>"
  by simp

lemma png_is_media: "categorize_url ''http://a.com/x.png'' = ''MEDIA''"
  by code_simp

text \<open>
  The flags \<^verbatim>\<open>-s --no-media\<close>: the claim keeps the MEDIA URL, whose category is not
  flagged; the loop drops it in the first block, and drops the SCRIPTS URL in the
  second.
\<close>

theorem exclusion_mode_drops_unflagged_url:
  "categorize_url ''http://a.com/x.png'' = ''MEDIA'' \<and>
   \<not> wanted (parse_args [''-s'', ''--no-media''] initial_flags) ''MEDIA'' \<and>
   have_cat_flags (parse_args [''-s'', ''--no-media''] initial_flags) \<and>
   no_media_mode (parse_args [''-s'', ''--no-media''] initial_flags) \<and>
   kept_urls (parse_args [''-s'', ''--no-media''] initial_flags)
     [''http://a.com/x.png'', ''http://a.com/y.js''] = []"
proof -
  let ?f = "parse_args [''-s'', ''--no-media''] initial_flags"
  have f: "have_cat_flags ?f" "no_media_mode ?f" "\<not> wanted ?f ''MEDIA''"
    by (simp_all add: exclusion_flags_parsed have_cat_flags_def wanted_def initial_flags_def)
  from f(1,2) have "kept_urls ?f [''http://a.com/x.png'', ''http://a.com/y.js''] = []"
    by (rule exclusion_with_flags_keeps_nothing)
  with f png_is_media show ?thesis by blast
qed

section \<open>Properties of the session loop\<close>

lemma split_tokens_Nil: "split_tokens [] n = []"
  by (cases n) simp_all

lemma affirmative_iff: "affirmative a \<longleftrightarrow> prefix ''y'' a \<or> prefix ''Y'' a"
  by (cases a) (auto simp: affirmative_def)

lemma find_url_sole_flag:
  "find_url [''-h''] = (None, 0)" "find_url [''--help''] = (None, 0)"
  "find_url [''--night-ops''] = (None, 0)"
  by (simp_all add: starts_dash_def)

lemma session_step_with_url:
  assumes "find_url (split_tokens (chomp line) 64) = (Some url, k)"
  shows "session_step run_html exe fs line ans
           = run_command run_html exe fs url (drop k (split_tokens (chomp line) 64)) ans"
proof -
  let ?tokens = "split_tokens (chomp line) 64"
  from assms have ne: "?tokens \<noteq> []" by auto
  then have line: "chomp line \<noteq> []" by (auto simp: split_tokens_Nil)
  from assms find_url_sole_flag
  have sole: "?tokens \<noteq> [''-h'']" "?tokens \<noteq> [''--help'']" "?tokens \<noteq> [''--night-ops'']"
    by auto
  show ?thesis
    unfolding session_step_def Let_def using ne line sole assms by simp
qed

lemma session_step_standalone:
  assumes "split_tokens (chomp line) 64 = [''--night-ops'']"
  shows "session_step run_html exe fs line ans =
           (case ans of
              None \<Rightarrow> (NightOpsCanceledUnread, fs, True)
            | Some a \<Rightarrow>
                if affirmative a then (NightOpsCleanup, night_ops_cleanup exe fs, False)
                else (NightOpsCanceled, fs, True))"
proof -
  from assms have "chomp line \<noteq> []" by (auto simp: split_tokens_Nil)
  with assms show ?thesis by (simp add: session_step_def)
qed

text \<open>
  Claim C8. When the line is the single token \<^verbatim>\<open>--night-ops\<close> and the confirmation
  cannot be read, or does not begin with \<^verbatim>\<open>y\<close> or \<^verbatim>\<open>Y\<close>, the pass leaves the file
  system as it was and the loop goes on to the next prompt.
\<close>

theorem standalone_night_ops_cancel_no_mutation:
  assumes "split_tokens (chomp line) 64 = [''--night-ops'']"
    and "ans = None \<or> (\<exists>a. ans = Some a \<and> \<not> prefix ''y'' a \<and> \<not> prefix ''Y'' a)"
  shows "\<exists>oc. session_step run_html exe fs line ans = (oc, fs, True) \<and>
              (oc = NightOpsCanceledUnread \<or> oc = NightOpsCanceled)"
proof -
  from assms(1) have line: "chomp line \<noteq> []" by (auto simp: split_tokens_Nil)
  from assms(2) show ?thesis
  proof
    assume "ans = None"
    with assms(1) line show ?thesis by (simp add: session_step_def)
  next
    assume "\<exists>a. ans = Some a \<and> \<not> prefix ''y'' a \<and> \<not> prefix ''Y'' a"
    then obtain a where "ans = Some a" "\<not> affirmative a" by (auto simp: affirmative_iff)
    with assms(1) line show ?thesis by (simp add: session_step_def)
  qed
qed

lemma night_ops_line_tokens: "split_tokens (chomp (''--night-ops'' @ [CHR 0x0A])) 64 = [''--night-ops'']"
  by code_simp

text \<open>The answer \<^verbatim>\<open>n\<close>, with the executable and an empty cache directory in place.\<close>

theorem standalone_night_ops_cancel_no_mutation_witness:
  "split_tokens (chomp (''--night-ops'' @ [CHR 0x0A])) 64 = [''--night-ops''] \<and>
   \<not> prefix ''y'' (''n'' @ [CHR 0x0A]) \<and> \<not> prefix ''Y'' (''n'' @ [CHR 0x0A]) \<and>
   (\<exists>oc. session_step (\<lambda>url args fs. fs) (Some ''./kno-url'') example_fs
           (''--night-ops'' @ [CHR 0x0A]) (Some (''n'' @ [CHR 0x0A])) = (oc, example_fs, True) \<and>
         (oc = NightOpsCanceledUnread \<or> oc = NightOpsCanceled))"
proof -
  have no: "Some (''n'' @ [CHR 0x0A]) = None \<or>
      (\<exists>a. Some (''n'' @ [CHR 0x0A]) = Some a \<and> \<not> prefix ''y'' a \<and> \<not> prefix ''Y'' a)"
    by simp
  from standalone_night_ops_cancel_no_mutation [OF night_ops_line_tokens no]
  show ?thesis using night_ops_line_tokens by simp
qed

text \<open>The answer \<^verbatim>\<open>y\<close> on the same file system removes both and ends the loop.\<close>

lemma affirmative_answer_cleans_up:
  "session_step (\<lambda>url args fs. fs) (Some ''./kno-url'') example_fs
     (''--night-ops'' @ [CHR 0x0A]) (Some (''y'' @ [CHR 0x0A])) = (NightOpsCleanup, [], False)"
proof -
  have "night_ops_cleanup (Some ''./kno-url'') example_fs = []"
    by code_simp
  then show ?thesis
    by (subst session_step_standalone [OF night_ops_line_tokens]) (simp add: affirmative_def)
qed

text \<open>
  The cleanup on two other file systems: a cache directory that is not empty stays, with
  what it holds; and when the path of the executable is the directory that holds the
  cache directory, removing the cache directory leaves it empty and it is removed too.
\<close>

lemma cleanup_keeps_full_cache:
  "night_ops_cleanup (Some ''./kno-url'')
     [(''./kno-url'', RegularFile), (''./.kno-url'', Directory), (''./.kno-url/page'', RegularFile)]
   = [(''./.kno-url'', Directory), (''./.kno-url/page'', RegularFile)]"
  by code_simp

lemma cleanup_removes_emptied_parent:
  "night_ops_cleanup (Some ''d/'') [(''d/'', Directory), (''d/.kno-url'', Directory)] = []"
  by code_simp

lemma takeWhile_full_length: "length (takeWhile P xs) = length xs \<Longrightarrow> \<forall>x \<in> set xs. P x"
  by (induction xs) (auto split: if_splits)

lemma sd_stage_cases:
  assumes "''-sd'' \<in> set args"
  shows "sd_stage args = Inl SdRequiresDuration \<or>
         (\<exists>d. sd_stage args = Inl (SdInvalidDuration d)) \<or>
         (\<exists>args1 sd. sd_stage args = Inr (args1, sd) \<and> 0 <s sd)"
proof -
  from assms have "length (takeWhile (\<lambda>a. a \<noteq> ''-sd'') args) \<noteq> length args"
    by (auto dest: takeWhile_full_length)
  then show ?thesis
    by (simp add: sd_stage_def Let_def word_sless_alt word_sle_eq)
qed

lemma run_command_sd_without_night_ops:
  assumes "''-sd'' \<in> set args" and "''--night-ops'' \<notin> set args"
  shows "\<exists>oc. run_command run_html exe fs url args ans = (oc, fs, True) \<and>
              (oc = SdRequiresDuration \<or> (\<exists>d. oc = SdInvalidDuration d) \<or> oc = SdWithoutNightOps)"
proof -
  from assms(2) have no: "\<not> list_ex (\<lambda>a. a = ''--night-ops'') args"
    by (simp add: list_ex_iff)
  from sd_stage_cases [OF assms(1)] show ?thesis
  proof (elim disjE exE conjE)
    assume "sd_stage args = Inl SdRequiresDuration"
    then show ?thesis by (simp add: run_command_def)
  next
    fix d assume "sd_stage args = Inl (SdInvalidDuration d)"
    then show ?thesis by (simp add: run_command_def)
  next
    fix args1 sd assume "sd_stage args = Inr (args1, sd)" "0 <s sd"
    then show ?thesis using no
      by (simp add: run_command_def word_sless_alt word_sle_eq)
  qed
qed

text \<open>
  Claim C5, amended. The flag list of a line is what follows its URL among the first 64
  tokens. When a line has a URL and its flag list contains \<^verbatim>\<open>-sd\<close> but not
  \<^verbatim>\<open>--night-ops\<close>, the pass ends with one of the three \<^verbatim>\<open>-sd\<close> rejections (duration
  missing, duration invalid, or \<^verbatim>\<open>-sd\<close> without \<^verbatim>\<open>--night-ops\<close> when the duration is
  valid): nothing is scraped, the file system is unchanged, and the loop goes on.
\<close>

theorem sd_without_night_ops_rejected:
  assumes "find_url (split_tokens (chomp line) 64) = (Some url, k)"
    and "''-sd'' \<in> set (drop k (split_tokens (chomp line) 64))"
    and "''--night-ops'' \<notin> set (drop k (split_tokens (chomp line) 64))"
  shows "\<exists>oc. session_step run_html exe fs line ans = (oc, fs, True) \<and>
              (oc = SdRequiresDuration \<or> (\<exists>d. oc = SdInvalidDuration d) \<or> oc = SdWithoutNightOps)"
  unfolding session_step_with_url [OF assms(1)]
  using assms(2,3) by (rule run_command_sd_without_night_ops)

lemma sd_line_tokens:
  "split_tokens (chomp ''example.com -s -sd 90s'') 64 = [''example.com'', ''-s'', ''-sd'', ''90s'']"
  by code_simp

lemma example_com_url:
  "find_url (''example.com'' # rest) = (Some ''https://example.com'', 1)"
  by (simp add: starts_dash_def normalize_url_def strchr_found_def)

theorem sd_without_night_ops_rejected_witness:
  "find_url (split_tokens (chomp ''example.com -s -sd 90s'') 64) = (Some ''https://example.com'', 1) \<and>
   ''-sd'' \<in> set (drop 1 (split_tokens (chomp ''example.com -s -sd 90s'') 64)) \<and>
   ''--night-ops'' \<notin> set (drop 1 (split_tokens (chomp ''example.com -s -sd 90s'') 64)) \<and>
   (\<exists>oc. session_step (\<lambda>url args fs. fs) None [] ''example.com -s -sd 90s'' None
           = (oc, [], True) \<and>
         (oc = SdRequiresDuration \<or> (\<exists>d. oc = SdInvalidDuration d) \<or> oc = SdWithoutNightOps))"
proof -
  let ?line = "''example.com -s -sd 90s''"
  have 1: "find_url (split_tokens (chomp ?line) 64) = (Some ''https://example.com'', 1)"
    by (simp only: sd_line_tokens example_com_url)
  have 2: "''-sd'' \<in> set (drop 1 (split_tokens (chomp ?line) 64))"
    by (simp add: sd_line_tokens)
  have 3: "''--night-ops'' \<notin> set (drop 1 (split_tokens (chomp ?line) 64))"
    by (simp add: sd_line_tokens)
  from sd_without_night_ops_rejected [OF 1 2 3] 1 2 3 show ?thesis by blast
qed



lemma leading_sd_tokens:
  "split_tokens (chomp ''-sd 90s http://x.com'') 64 = [''-sd'', ''90s'', ''http://x.com'']"
  by code_simp

lemma leading_sd_url: "find_url [''-sd'', ''90s'', ''http://x.com''] = (Some ''http://x.com'', 3)"
  by (simp add: starts_dash_def normalize_url_def)

text \<open>
  Claim C5 as stated fails on a line whose \<^verbatim>\<open>-sd\<close> comes before the URL: the URL is
  found by the scan of all tokens, the tokens before it are not part of the flag list,
  and the page is scraped.
\<close>

theorem sd_before_url_counterexample:
  "split_tokens (chomp ''-sd 90s http://x.com'') 64 = [''-sd'', ''90s'', ''http://x.com''] \<and>
   find_url [''-sd'', ''90s'', ''http://x.com''] = (Some ''http://x.com'', 3) \<and>
   session_step (\<lambda>url args fs. fs) None [] ''-sd 90s http://x.com'' None
     = (Scraped ''http://x.com'' [], [], True)"
proof -
  have 1: "find_url (split_tokens (chomp ''-sd 90s http://x.com'') 64) = (Some ''http://x.com'', 3)"
    by (simp only: leading_sd_tokens leading_sd_url)
  have "run_command (\<lambda>url args fs. fs) None [] ''http://x.com'' [] None
      = (Scraped ''http://x.com'' [], [], True)"
    by (simp add: run_command_def sd_stage_def first_unknown_def word_sle_eq word_sless_alt)
  then have "session_step (\<lambda>url args fs. fs) None [] ''-sd 90s http://x.com'' None
      = (Scraped ''http://x.com'' [], [], True)"
    unfolding session_step_with_url [OF 1] by (simp add: leading_sd_tokens)
  with leading_sd_tokens leading_sd_url show ?thesis by blast
qed



lemma night_ops_flag: "list_ex (\<lambda>a. a = ''--night-ops'') args = (''--night-ops'' \<in> set args)"
  by (auto simp: list_ex_iff)



lemma run_command_valid_sd_without_night_ops:
  assumes "sd_stage args = Inr (args1, sd)" and "''--night-ops'' \<notin> set args" and "0 \<le>s sd"
  shows "run_command run_html exe fs url args ans = (SdWithoutNightOps, fs, True)"
  using assms by (simp add: run_command_def night_ops_flag)










text \<open>
  \<^verbatim>\<open>-sd\<close> is not an entry of \<^verbatim>\<open>valid_flags\<close>: a second \<^verbatim>\<open>-sd\<close>, left in the flag
  list once the first is removed, is the token the unknown-flag message names.
\<close>

lemma second_sd_line_tokens:
  "split_tokens (chomp ''example.com --night-ops -sd 1s -sd 2s --bogus'') 64
     = [''example.com'', ''--night-ops'', ''-sd'', ''1s'', ''-sd'', ''2s'', ''--bogus'']"
  by code_simp

lemma parse_1s: "parse_duration_seconds ''1s'' = 1"
  by (simp add: duration_defs)

lemma second_sd_stage:
  "sd_stage [''--night-ops'', ''-sd'', ''1s'', ''-sd'', ''2s'', ''--bogus'']
     = Inr ([''--night-ops'', ''-sd'', ''2s'', ''--bogus''], 1)"
  by (simp add: sd_stage_def starts_dash_def strncat_durbuf_def parse_1s word_sle_eq)

lemma second_sd_is_named:
  "session_step (\<lambda>url args fs. fs) None []
     ''example.com --night-ops -sd 1s -sd 2s --bogus'' None = (UnknownFlag ''-sd'', [], True)"
proof -
  let ?line = "''example.com --night-ops -sd 1s -sd 2s --bogus''"
  have 1: "find_url (split_tokens (chomp ?line) 64) = (Some ''https://example.com'', 1)"
    by (simp only: second_sd_line_tokens example_com_url)
  have "run_command (\<lambda>url args fs. fs) None [] ''https://example.com''
          [''--night-ops'', ''-sd'', ''1s'', ''-sd'', ''2s'', ''--bogus''] None
        = (UnknownFlag ''-sd'', [], True)"
    by (simp add: run_command_def second_sd_stage word_sle_eq word_sless_alt first_unknown_def
        starts_dash_def valid_flags_def)
  then show ?thesis
    unfolding session_step_with_url [OF 1] by (simp add: second_sd_line_tokens)
qed

end
